theory Spec2Isabelle
  imports Main
begin

section \<open>Pitch-class patterns and the chord catalog\<close>

text \<open>
  A raga pattern is the JavaScript array built by \<^verbatim>\<open>parseAarohAvrohCSV\<close>:
  twelve numbers, each 0 or 1, index 0 being the tonic Sa. The model keeps it a list of
  naturals of any length, and writes out what an index outside the array does in the
  source: the read gives \<^verbatim>\<open>undefined\<close>, which is falsy and is identical to no number.
\<close>

type_synonym pattern = "nat list"

definition truthyAt :: "pattern \<Rightarrow> nat \<Rightarrow> bool" where
  \<comment> \<open>\<^verbatim>\<open>pattern[i]\<close> in a boolean position\<close>
  "truthyAt p i = (i < length p \<and> p ! i \<noteq> 0)"


definition flatSign :: string where
  \<comment> \<open>the UTF-8 bytes of U+266D, the musical flat sign\<close>
  "flatSign = [CHR 0xE2, CHR 0x99, CHR 0xAD]"

definition sharpSign :: string where
  \<comment> \<open>the UTF-8 bytes of U+266F, the musical sharp sign\<close>
  "sharpSign = [CHR 0xE2, CHR 0x99, CHR 0xAF]"

definition swarNames :: "string list" where
  "swarNames =
     [''Sa'', ''Re'' @ flatSign, ''Re'', ''Ga'' @ flatSign, ''Ga'', ''Ma'', ''Ma'' @ sharpSign,
      ''Pa'', ''Dha'' @ flatSign, ''Dha'', ''Ni'' @ flatSign, ''Ni'']"

definition westernNotesFlat :: "string list" where
  "westernNotesFlat =
     [''C'', ''D'' @ flatSign, ''D'', ''E'' @ flatSign, ''E'', ''F'', ''G'' @ flatSign,
      ''G'', ''A'' @ flatSign, ''A'', ''B'' @ flatSign, ''B'']"

record chordType =
  id_ct :: string
  name :: string
  intervals :: "nat list"
  color :: string

definition chordTypes :: "chordType list" where
  "chordTypes =
     [\<lparr>id_ct = ''major'', name = ''Major'', intervals = [0, 4, 7], color = ''#3b82f6''\<rparr>,
      \<lparr>id_ct = ''minor'', name = ''Minor'', intervals = [0, 3, 7], color = ''#8b5cf6''\<rparr>,
      \<lparr>id_ct = ''diminished'', name = ''Diminished'', intervals = [0, 3, 6], color = ''#ef4444''\<rparr>,
      \<lparr>id_ct = ''sus4'', name = ''Sus4'', intervals = [0, 5, 7], color = ''#10b981''\<rparr>,
      \<lparr>id_ct = ''augmented'', name = ''Augmented'', intervals = [0, 4, 8], color = ''#f97316''\<rparr>,
      \<lparr>id_ct = ''major7'', name = ''Major 7'', intervals = [0, 4, 7, 11], color = ''#22c55e''\<rparr>,
      \<lparr>id_ct = ''minor7'', name = ''Minor 7'', intervals = [0, 3, 7, 10], color = ''#06b6d4''\<rparr>,
      \<lparr>id_ct = ''dom7'', name = ''Dominant 7'', intervals = [0, 4, 7, 10], color = ''#eab308''\<rparr>,
      \<lparr>id_ct = ''sus2'', name = ''Sus2'', intervals = [0, 2, 7], color = ''#14b8a6''\<rparr>,
      \<lparr>id_ct = ''dim7'', name = ''Diminished 7'', intervals = [0, 3, 6, 9], color = ''#db2777''\<rparr>,
      \<lparr>id_ct = ''maj6'', name = ''Major 6'', intervals = [0, 4, 7, 9], color = ''#a3e635''\<rparr>,
      \<lparr>id_ct = ''min6'', name = ''Minor 6'', intervals = [0, 3, 7, 9], color = ''#f43f5e''\<rparr>,
      \<lparr>id_ct = ''m7b5'', name = ''Half-diminished (m7'' @ flatSign @ ''5)'', intervals = [0, 3, 6, 10],
        color = ''#0ea5e9''\<rparr>]"

record raga =
  raga_name :: string
  notePattern :: pattern
  aarohPattern :: pattern
  avrohPattern :: pattern

section \<open>ChordMatcher\<close>

text \<open>
  A matched chord as \<^verbatim>\<open>availableChordsForPattern\<close> pushes it; \<^verbatim>\<open>westernName\<close> is the
  property that \<^verbatim>\<open>attachWesternNames\<close> adds, absent until then.
\<close>

record chord =
  root :: nat
  rootName :: string
  notes_c :: "nat list"
  type :: chordType
  isExtended :: bool
  westernName :: "string option"

definition getExtendedIntervals :: "nat list \<Rightarrow> bool \<Rightarrow> nat list" where
  "getExtendedIntervals baseIntervals ext =
     (if \<not> ext \<or> length baseIntervals < 3 then baseIntervals
      else let highest = Max (set baseIntervals);
               add = (highest + 3) mod 12
           in baseIntervals @ [add])"

definition selectTypes :: "string option \<Rightarrow> chordType list" where
  \<comment> \<open>\<^verbatim>\<open>chordId === 'all' || !chordId ? chordTypes : chordTypes.filter(c => c.id === chordId)\<close>;
      \<open>None\<close> is an absent argument, and the empty string is falsy as well\<close>
  "selectTypes chordId =
     (case chordId of
        None \<Rightarrow> chordTypes
      | Some s \<Rightarrow> if s = ''all'' \<or> s = [] then chordTypes
                  else filter (\<lambda>c. id_ct c = s) chordTypes)"

definition chordAt :: "pattern \<Rightarrow> chordType \<Rightarrow> bool \<Rightarrow> nat \<Rightarrow> chord option" where
  \<comment> \<open>one pass of the loop over \<^verbatim>\<open>root\<close>: what is pushed, if anything\<close>
  "chordAt p ct ext r =
     (if \<not> truthyAt p r then None
      else let ivs = getExtendedIntervals (intervals ct) ext;
               ns = map (\<lambda>x. (r + x) mod 12) ivs;
               ok = list_all (\<lambda>n. truthyAt p n) ns
           in if ok
              then Some \<lparr>root = r, rootName = swarNames ! r, notes_c = ns, type = ct,
                         isExtended = (ext \<and> length ivs > length (intervals ct)),
                         westernName = None\<rparr>
              else None)"

definition chordsOfType :: "pattern \<Rightarrow> bool \<Rightarrow> chordType \<Rightarrow> chord list" where
  \<comment> \<open>\<^verbatim>\<open>for (let root = 0; root < 12; root++)\<close>, in ascending order\<close>
  "chordsOfType p ext ct = List.map_filter (chordAt p ct ext) [0..<12]"

definition availableChordsForPattern :: "pattern \<Rightarrow> string option \<Rightarrow> bool \<Rightarrow> chord list" where
  \<comment> \<open>\<^verbatim>\<open>types.forEach\<close> appends each template's matches to \<^verbatim>\<open>result\<close>\<close>
  "availableChordsForPattern p chordId ext =
     concat (map (chordsOfType p ext) (selectTypes chordId))"

definition posIn :: "'a list \<Rightarrow> 'a \<Rightarrow> nat" where
  \<comment> \<open>the position of the first occurrence of an element (the length, when it is absent)\<close>
  "posIn xs a = length (takeWhile (\<lambda>x. x \<noteq> a) xs)"

definition catalogPos :: "chordType \<Rightarrow> nat" where
  "catalogPos ct = posIn chordTypes ct"

section \<open>Filtering by note and western names\<close>

text \<open>
  \<^verbatim>\<open>selectedNote\<close> is the integer the route parsed, and \<open>None\<close> when it is
  \<^verbatim>\<open>undefined\<close> or \<^verbatim>\<open>null\<close>; \<^verbatim>\<open>mode\<close> is the query string, \<open>None\<close> when missing.
  \<^verbatim>\<open>tonicIndex\<close> is the integer value of the number \<^verbatim>\<open>parseInt\<close> gave the route, of
  either sign and of any size (an infinite one is left out), and \<open>None\<close> when it is
  \<^verbatim>\<open>undefined\<close> or \<^verbatim>\<open>null\<close>. The source adds it to a pitch as numbers, so the sum is
  rounded as a double is; \<^verbatim>\<open>%\<close> is exact on what results.
\<close>

definition filterChordsByNote :: "chord list \<Rightarrow> int option \<Rightarrow> string option \<Rightarrow> chord list" where
  "filterChordsByNote chords selectedNote mode =
     (case selectedNote of
        None \<Rightarrow> chords
      | Some sel \<Rightarrow>
          if mode = Some ''any'' then filter (\<lambda>c. sel \<in> set (map int (notes_c c))) chords
          else filter (\<lambda>c. int (root c) = sel) chords)"

definition jsRem :: "int \<Rightarrow> int \<Rightarrow> int" where
  \<comment> \<open>JavaScript's \<^verbatim>\<open>%\<close> on integers, for a divisor other than 0: the remainder has the
      sign of the dividend\<close>
  "jsRem a b = sgn a * (\<bar>a\<bar> mod \<bar>b\<bar>)"

fun bitLength :: "nat \<Rightarrow> nat" where
  "bitLength n = (if n = 0 then 0 else Suc (bitLength (n div 2)))"

declare bitLength.simps [simp del]

definition dblRound :: "int \<Rightarrow> int" where
  \<comment> \<open>the double nearest to an integer: 53 significant bits, a tie goes to the even
      significand (integers that would overflow a double are left out)\<close>
  "dblRound s =
     (let m = nat \<bar>s\<bar>;
          e = bitLength m - 53;
          q = 2 ^ e;
          d = m div q;
          r = m mod q;
          d' = (if q < 2 * r \<or> (2 * r = q \<and> odd d) then d + 1 else d)
      in sgn s * int (d' * q))"

definition dblAdd :: "int \<Rightarrow> int \<Rightarrow> int" where
  \<comment> \<open>JavaScript's \<^verbatim>\<open>+\<close> on two integer-valued numbers: the exact sum, rounded to a double\<close>
  "dblAdd a b = dblRound (a + b)"

definition elementAt :: "string list \<Rightarrow> int \<Rightarrow> string option" where
  \<comment> \<open>\<^verbatim>\<open>table[i]\<close>: \<^verbatim>\<open>undefined\<close> (\<open>None\<close>) outside the array\<close>
  "elementAt tbl i = (if 0 \<le> i \<and> nat i < length tbl then Some (tbl ! nat i) else None)"

definition inTemplate :: "string option \<Rightarrow> string" where
  \<comment> \<open>a value substituted in a template literal: \<^verbatim>\<open>undefined\<close> prints as its name\<close>
  "inTemplate v = (case v of None \<Rightarrow> ''undefined'' | Some s \<Rightarrow> s)"

definition inJoin :: "string option \<Rightarrow> string" where
  \<comment> \<open>an element under \<^verbatim>\<open>Array.prototype.join\<close>: \<^verbatim>\<open>undefined\<close> prints as nothing\<close>
  "inJoin v = (case v of None \<Rightarrow> [] | Some s \<Rightarrow> s)"

fun joinWith :: "string \<Rightarrow> string list \<Rightarrow> string" where
  "joinWith sep [] = []"
| "joinWith sep [x] = x"
| "joinWith sep (x # y # ys) = x @ sep @ joinWith sep (y # ys)"

definition qualityOf :: "chordType \<Rightarrow> string" where
  "qualityOf ct =
     (let i = id_ct ct in
      if i = ''major'' then []
      else if i = ''minor'' then ''m''
      else if i = ''diminished'' then ''dim''
      else if i = ''augmented'' then ''aug''
      else if i = ''sus4'' then ''sus4''
      else if i = ''sus2'' then ''sus2''
      else if i = ''major7'' then ''maj7''
      else if i = ''minor7'' then ''m7''
      else if i = ''dom7'' then ''7''
      else if i = ''dim7'' then ''dim7''
      else if i = ''m7b5'' then ''m7'' @ flatSign @ ''5''
      else if i = ''maj6'' then ''6''
      else if i = ''min6'' then ''m6''
      else name ct)"

definition attachWesternNames :: "chord list \<Rightarrow> int option \<Rightarrow> chord list" where
  "attachWesternNames chords tonicIndex =
     (case tonicIndex of
        None \<Rightarrow> chords
      | Some t \<Rightarrow>
          map (\<lambda>chord.
                let rootWesternIndex = jsRem (dblAdd (int (root chord)) t) 12;
                    rootNote = elementAt westernNotesFlat rootWesternIndex;
                    quality = qualityOf (type chord);
                    westernChordNotes =
                      map (\<lambda>n. elementAt westernNotesFlat (jsRem (dblAdd (int n) t) 12)) (notes_c chord)
                in chord\<lparr>westernName :=
                     Some (inTemplate rootNote @ quality @ '': '' @
                           joinWith '' - '' (map inJoin westernChordNotes))\<rparr>)
              chords)"



section \<open>CustomMatcher\<close>

text \<open>
  The route reads \<^verbatim>\<open>intervalsAbs\<close> from the parsed JSON body and tests only
  \<^verbatim>\<open>Array.isArray\<close> and the length, so the field is absent, some value that is
  not an array, or an array. Of the elements the model keeps integer numbers,
  \<^verbatim>\<open>null\<close>, booleans and plain objects, with the number \<^verbatim>\<open>%\<close> makes of each; numbers
  with a fraction, strings and nested arrays are left out. A number is an integer or
  \<^verbatim>\<open>NaN\<close>.
\<close>

datatype number = Num int | NaN

datatype jsvalue = JNum int | JNull | JBool bool | JObject


fun toNumber :: "jsvalue \<Rightarrow> number" where
  "toNumber (JNum n) = Num n"
| "toNumber JNull = Num 0"
| "toNumber (JBool b) = Num (if b then 1 else 0)"
| "toNumber JObject = NaN"

fun numRem :: "number \<Rightarrow> int \<Rightarrow> number" where
  "numRem (Num a) b = Num (jsRem a b)"
| "numRem NaN b = NaN"

fun numAdd :: "number \<Rightarrow> number \<Rightarrow> number" where
  "numAdd (Num a) (Num b) = Num (a + b)"
| "numAdd _ _ = NaN"

definition normalizeInterval :: "jsvalue \<Rightarrow> number" where
  \<comment> \<open>\<^verbatim>\<open>((v % 12) + 12) % 12\<close>\<close>
  "normalizeInterval v = numRem (numAdd (numRem (toNumber v) 12) (Num 12)) 12"

definition truthyAtNum :: "pattern \<Rightarrow> number \<Rightarrow> bool" where
  \<comment> \<open>\<^verbatim>\<open>pattern[i]\<close> in a boolean position, for a computed index\<close>
  "truthyAtNum p i = (case i of NaN \<Rightarrow> False | Num k \<Rightarrow> 0 \<le> k \<and> truthyAt p (nat k))"

record customMatch =
  root_m :: nat
  rootName_m :: string
  notes_m :: "number list"

definition matchAt :: "number list \<Rightarrow> pattern \<Rightarrow> nat \<Rightarrow> customMatch option" where
  \<comment> \<open>one pass of the loop over \<^verbatim>\<open>root\<close> in \<^verbatim>\<open>findMatches\<close>\<close>
  "matchAt pcs p r =
     (let ns = map (\<lambda>iv. numRem (numAdd (Num (int r)) iv) 12) pcs
      in if list_all (\<lambda>i. truthyAtNum p i) ns
         then Some \<lparr>root_m = r, rootName_m = swarNames ! r, notes_m = ns\<rparr>
         else None)"

definition findMatches :: "number list \<Rightarrow> pattern \<Rightarrow> customMatch list" where
  "findMatches pcs p = List.map_filter (matchAt pcs p) [0..<12]"

datatype error = InvalidInput | NotFound | MethodNotAllowed





section \<open>AggregateCounter\<close>

record aggregate =
  basic :: nat
  extended :: nat

definition countInto :: "pattern \<Rightarrow> bool \<Rightarrow> chordType \<Rightarrow> aggregate \<Rightarrow> aggregate" where
  \<comment> \<open>the body of \<^verbatim>\<open>chordTypes.forEach\<close> in the aggregates route\<close>
  "countInto p ext ct acc =
     (let arr = availableChordsForPattern p (Some (id_ct ct)) ext
      in \<lparr>basic = basic acc + length (filter (\<lambda>c. \<not> isExtended c) arr),
          extended = extended acc + length (filter (\<lambda>c. isExtended c) arr)\<rparr>)"

definition aggregates :: "raga option \<Rightarrow> bool \<Rightarrow> bool \<Rightarrow> error + aggregate" where
  "aggregates found separateBool extendBool =
     (case found of
        None \<Rightarrow> Inl NotFound
      | Some r \<Rightarrow>
          (let parts = (if separateBool then [aarohPattern r, avrohPattern r] else [notePattern r])
           in Inr (fold (\<lambda>p acc. fold (countInto p extendBool) chordTypes acc) parts
                     \<lparr>basic = 0, extended = 0\<rparr>)))"

section \<open>RagaSearchEngine: the pitch-class stage\<close>






section \<open>Facts about the matcher and the catalog\<close>

lemma chordAt_Some:
  assumes "chordAt p ct e r = Some c"
  shows "root c = r" and "type c = ct" and "truthyAt p r"
    and "notes_c c = map (\<lambda>x. (r + x) mod 12) (getExtendedIntervals (intervals ct) e)"
    and "\<forall>n \<in> set (notes_c c). truthyAt p n"
    and "isExtended c = (e \<and> length (getExtendedIntervals (intervals ct) e) > length (intervals ct))"
    and "rootName c = swarNames ! r" and "westernName c = None"
  using assms by (auto simp: chordAt_def Let_def list_all_iff split: if_splits)

lemma set_map_filter_iff: "y \<in> set (List.map_filter g xs) \<longleftrightarrow> (\<exists>x \<in> set xs. g x = Some y)"
  by (induction xs) (auto split: option.splits)

lemma in_chordsOfType:
  "c \<in> set (chordsOfType p e ct) \<longleftrightarrow> (\<exists>r < 12. chordAt p ct e r = Some c)"
  by (auto simp: chordsOfType_def set_map_filter_iff)

lemma in_availableChords:
  "c \<in> set (availableChordsForPattern p f e) \<longleftrightarrow>
     (\<exists>ct \<in> set (selectTypes f). \<exists>r < 12. chordAt p ct e r = Some c)"
  by (auto simp: availableChordsForPattern_def in_chordsOfType)

lemma selectTypes_subset: "set (selectTypes f) \<subseteq> set chordTypes"
  by (auto simp: selectTypes_def split: option.splits)

lemma posIn_Cons: "posIn (x # xs) a = (if x = a then 0 else Suc (posIn xs a))"
  by (simp add: posIn_def)

lemma sorted_wrt_posIn: "distinct xs \<Longrightarrow> sorted_wrt (\<lambda>a b. posIn xs a < posIn xs b) xs"
proof (induction xs)
  case Nil
  show ?case by simp
next
  case (Cons x xs)
  then have ih: "sorted_wrt (\<lambda>a b. posIn xs a < posIn xs b) xs" and nx: "x \<notin> set xs"
    by simp_all
  have "sorted_wrt (\<lambda>a b. posIn (x # xs) a < posIn (x # xs) b) xs"
    using nx by (intro sorted_wrt_mono_rel [OF _ ih]) (auto simp: posIn_Cons)
  moreover have "\<forall>b \<in> set xs. posIn (x # xs) x < posIn (x # xs) b"
    using nx by (auto simp: posIn_Cons)
  ultimately show ?case by simp
qed

lemma distinct_chordTypes: "distinct (map id_ct chordTypes)"
  by (simp add: chordTypes_def)

lemma sorted_wrt_concat_map:
  assumes "sorted_wrt Q xs"
    and "\<And>x. x \<in> set xs \<Longrightarrow> sorted_wrt R (g x)"
    and "\<And>x y a b. Q x y \<Longrightarrow> x \<in> set xs \<Longrightarrow> y \<in> set xs \<Longrightarrow> a \<in> set (g x) \<Longrightarrow> b \<in> set (g y) \<Longrightarrow> R a b"
  shows "sorted_wrt R (concat (map g xs))"
  using assms
proof (induction xs)
  case Nil
  show ?case by simp
next
  case (Cons x xs)
  have "sorted_wrt R (concat (map g xs))"
    using Cons.prems by (intro Cons.IH) auto
  moreover have "sorted_wrt R (g x)" using Cons.prems(2) by simp
  moreover have "\<forall>a \<in> set (g x). \<forall>b \<in> set (concat (map g xs)). R a b"
    using Cons.prems(1,3) by (auto 4 4)
  ultimately show ?case by (simp add: sorted_wrt_append)
qed

lemma sorted_wrt_map_filter:
  assumes "sorted_wrt lt rs" and "\<And>r c. g r = Some c \<Longrightarrow> key c = r"
  shows "sorted_wrt (\<lambda>a b. lt (key a) (key b)) (List.map_filter g rs)"
  using assms(1)
proof (induction rs)
  case Nil
  show ?case by simp
next
  case (Cons r rs)
  then show ?case
    by (auto simp: set_map_filter_iff assms(2) split: option.splits)
qed

lemma chordsOfType_sorted:
  "sorted_wrt (\<lambda>a b. root a < root b) (chordsOfType p e ct)"
  unfolding chordsOfType_def
  by (rule sorted_wrt_map_filter [where lt = "(<)"]) (auto simp: chordAt_Some(1) sorted_wrt_iff_nth_less)

lemma selectTypes_sorted:
  "sorted_wrt (\<lambda>a b. catalogPos a < catalogPos b) (selectTypes f)"
proof -
  have d: "distinct chordTypes" using distinct_chordTypes by (simp add: distinct_map)
  have s: "sorted_wrt (\<lambda>a b. catalogPos a < catalogPos b) chordTypes"
    unfolding catalogPos_def using d by (rule sorted_wrt_posIn)
  show ?thesis
    using s by (auto simp: selectTypes_def sorted_wrt_filter split: option.splits)
qed

lemma catalog_intervals:
  "ct \<in> set chordTypes \<Longrightarrow> 3 \<le> length (intervals ct) \<and> (\<forall>i \<in> set (intervals ct). i < 12) \<and> distinct (intervals ct)"
  by (auto simp: chordTypes_def)

lemma catalog_extended:
  "ct \<in> set chordTypes \<Longrightarrow>
     distinct (getExtendedIntervals (intervals ct) True) =
       (id_ct ct \<notin> {''dim7'', ''maj6'', ''min6''}) \<and>
     (\<forall>i \<in> set (getExtendedIntervals (intervals ct) True). i < 12)"
  by (auto simp: chordTypes_def getExtendedIntervals_def)

lemma transpose_inj: "inj_on (\<lambda>x. (r + x) mod 12) {..<12::nat}"
proof (rule inj_onI)
  fix x y :: nat
  assume "x \<in> {..<12}" "y \<in> {..<12}" "(r + x) mod 12 = (r + y) mod 12"
  then show "x = y"
    by (auto simp: mod_eq_iff_dvd_symdiff_nat dest: dvd_imp_le) presburger+
qed

section \<open>ChordMatcher: soundness and order\<close>

text \<open>
  C1. Whatever the pattern, the template filter and the extension flag, every chord
  \<^verbatim>\<open>availableChordsForPattern\<close> returns has a root from 0 to 11 that is present in the
  pattern, a template of the selected part of the catalog, as notes the template's
  intervals (extended when asked) transposed by the root modulo 12, and every such note
  present in the pattern. The chords come in catalog order of their templates and, for
  one template, in strictly ascending order of their roots.
\<close>

theorem availableChordsForPattern_sound_ordered:
  "(\<forall>c \<in> set (availableChordsForPattern P f e).
      root c < 12 \<and> truthyAt P (root c) \<and> type c \<in> set (selectTypes f) \<and>
      notes_c c = map (\<lambda>i. (root c + i) mod 12) (getExtendedIntervals (intervals (type c)) e) \<and>
      (\<forall>i \<in> set (getExtendedIntervals (intervals (type c)) e). truthyAt P ((root c + i) mod 12)))
   \<and> sorted_wrt (\<lambda>a b. catalogPos (type a) < catalogPos (type b) \<or>
                       (type a = type b \<and> root a < root b))
        (availableChordsForPattern P f e)"
proof (rule conjI)
  show "\<forall>c \<in> set (availableChordsForPattern P f e).
      root c < 12 \<and> truthyAt P (root c) \<and> type c \<in> set (selectTypes f) \<and>
      notes_c c = map (\<lambda>i. (root c + i) mod 12) (getExtendedIntervals (intervals (type c)) e) \<and>
      (\<forall>i \<in> set (getExtendedIntervals (intervals (type c)) e). truthyAt P ((root c + i) mod 12))"
  proof (rule ballI)
    fix c assume "c \<in> set (availableChordsForPattern P f e)"
    then obtain ct r where ct: "ct \<in> set (selectTypes f)" and r: "r < 12"
      and c: "chordAt P ct e r = Some c"
      by (auto simp: in_availableChords)
    note facts = chordAt_Some [OF c]
    show "root c < 12 \<and> truthyAt P (root c) \<and> type c \<in> set (selectTypes f) \<and>
      notes_c c = map (\<lambda>i. (root c + i) mod 12) (getExtendedIntervals (intervals (type c)) e) \<and>
      (\<forall>i \<in> set (getExtendedIntervals (intervals (type c)) e). truthyAt P ((root c + i) mod 12))"
      using r ct facts(1-5) by simp
  qed
next
  let ?R = "\<lambda>a b. catalogPos (type a) < catalogPos (type b) \<or> (type a = type b \<and> root a < root b)"
  have ty: "type c = ct" if "c \<in> set (chordsOfType P e ct)" for c ct
    using that by (auto simp: in_chordsOfType chordAt_Some(2))
  show "sorted_wrt ?R (availableChordsForPattern P f e)"
    unfolding availableChordsForPattern_def
  proof (rule sorted_wrt_concat_map [OF selectTypes_sorted])
    fix ct
    have "\<And>a b. a \<in> set (chordsOfType P e ct) \<Longrightarrow> b \<in> set (chordsOfType P e ct) \<Longrightarrow>
            root a < root b \<Longrightarrow> ?R a b"
      by (simp add: ty)
    then show "sorted_wrt ?R (chordsOfType P e ct)"
      by (rule sorted_wrt_mono_rel [OF _ chordsOfType_sorted])
  next
    fix x y a b
    assume "catalogPos x < catalogPos y" "a \<in> set (chordsOfType P e x)" "b \<in> set (chordsOfType P e y)"
    then show "?R a b" by (simp add: ty)
  qed
qed

theorem availableChordsForPattern_sound_ordered_witness:
  "\<lparr>root = 0, rootName = ''Sa'', notes_c = [0, 4, 7],
      type = \<lparr>id_ct = ''major'', name = ''Major'', intervals = [0, 4, 7], color = ''#3b82f6''\<rparr>,
      isExtended = False, westernName = None\<rparr>
     \<in> set (availableChordsForPattern [1, 0, 1, 0, 1, 0, 0, 1, 0, 1, 0, 0] (Some ''major'') False)
   \<and> truthyAt [1, 0, 1, 0, 1, 0, 0, 1, 0, 1, 0, 0] 0
   \<and> truthyAt [1, 0, 1, 0, 1, 0, 0, 1, 0, 1, 0, 0] 4
   \<and> truthyAt [1, 0, 1, 0, 1, 0, 0, 1, 0, 1, 0, 0] 7"
proof -
  let ?P = "[1, 0, 1, 0, 1, 0, 0, 1, 0, 1, 0, 0] :: pattern"
  let ?c = "\<lparr>root = 0, rootName = ''Sa'', notes_c = [0, 4, 7],
      type = \<lparr>id_ct = ''major'', name = ''Major'', intervals = [0, 4, 7], color = ''#3b82f6''\<rparr>,
      isExtended = False, westernName = None\<rparr>"
  have m: "?c \<in> set (availableChordsForPattern ?P (Some ''major'') False)"
    by code_simp
  have "truthyAt ?P (root ?c) \<and>
        (\<forall>i \<in> set (getExtendedIntervals (intervals (type ?c)) False). truthyAt ?P ((root ?c + i) mod 12))"
    using availableChordsForPattern_sound_ordered [of ?P "Some ''major''" False] m by blast
  then show ?thesis using m by (simp add: getExtendedIntervals_def)
qed

section \<open>The extension rule\<close>

text \<open>
  C2. \<^verbatim>\<open>getExtendedIntervals\<close> returns the intervals unchanged when extension is not
  asked or there are fewer than three of them, and otherwise appends the one offset
  (max + 3) mod 12. A returned chord has \<^verbatim>\<open>isExtended\<close> true exactly when extension
  was asked and the interval list used is longer than the template's own; every catalog
  template has at least three intervals, so the field equals the flag. The comparison
  is on lengths: for the intervals 0, 3, 6, 9 the appended offset is 0 again.
\<close>

theorem getExtendedIntervals_rule:
  "getExtendedIntervals B e = (if e \<and> 3 \<le> length B then B @ [(Max (set B) + 3) mod 12] else B)
   \<and> (\<forall>c \<in> set (availableChordsForPattern P f e).
         isExtended c =
           (e \<and> length (intervals (type c)) < length (getExtendedIntervals (intervals (type c)) e))
         \<and> isExtended c = e)
   \<and> getExtendedIntervals [0, 3, 6, 9] True = [0, 3, 6, 9, 0]"
proof (intro conjI)
  show "getExtendedIntervals B e = (if e \<and> 3 \<le> length B then B @ [(Max (set B) + 3) mod 12] else B)"
    by (auto simp: getExtendedIntervals_def Let_def)
  show "getExtendedIntervals [0, 3, 6, 9] True = [0, 3, 6, 9, 0]"
    by (simp add: getExtendedIntervals_def)
  show "\<forall>c \<in> set (availableChordsForPattern P f e).
         isExtended c =
           (e \<and> length (intervals (type c)) < length (getExtendedIntervals (intervals (type c)) e))
         \<and> isExtended c = e"
  proof (rule ballI)
    fix c assume "c \<in> set (availableChordsForPattern P f e)"
    then obtain ct r where ct: "ct \<in> set (selectTypes f)" and c: "chordAt P ct e r = Some c"
      by (auto simp: in_availableChords)
    have len: "3 \<le> length (intervals ct)"
      using ct selectTypes_subset catalog_intervals by blast
    have x: "isExtended c =
        (e \<and> length (intervals (type c)) < length (getExtendedIntervals (intervals (type c)) e))"
      using chordAt_Some(2,6) [OF c] by simp
    moreover have "isExtended c = e"
      using x len chordAt_Some(2) [OF c] by (auto simp: getExtendedIntervals_def Let_def)
    ultimately show "isExtended c =
           (e \<and> length (intervals (type c)) < length (getExtendedIntervals (intervals (type c)) e))
         \<and> isExtended c = e" by blast
  qed
qed

theorem getExtendedIntervals_rule_witness:
  "\<lparr>root = 0, rootName = ''Sa'', notes_c = [0, 3, 6, 9, 0],
      type = \<lparr>id_ct = ''dim7'', name = ''Diminished 7'', intervals = [0, 3, 6, 9], color = ''#db2777''\<rparr>,
      isExtended = True, westernName = None\<rparr>
     \<in> set (availableChordsForPattern [1, 0, 0, 1, 0, 0, 1, 0, 0, 1, 0, 0] (Some ''dim7'') True)
   \<and> length [0, 3, 6, 9 :: nat] < length (getExtendedIntervals [0, 3, 6, 9] True)
   \<and> \<not> distinct (getExtendedIntervals [0, 3, 6, 9] True)"
proof -
  let ?P = "[1, 0, 0, 1, 0, 0, 1, 0, 0, 1, 0, 0] :: pattern"
  let ?c = "\<lparr>root = 0, rootName = ''Sa'', notes_c = [0, 3, 6, 9, 0],
      type = \<lparr>id_ct = ''dim7'', name = ''Diminished 7'', intervals = [0, 3, 6, 9], color = ''#db2777''\<rparr>,
      isExtended = True, westernName = None\<rparr>"
  have m: "?c \<in> set (availableChordsForPattern ?P (Some ''dim7'') True)"
    by code_simp
  note rule = getExtendedIntervals_rule [of "[0, 3, 6, 9]" True ?P "Some ''dim7''"]
  have "isExtended ?c =
      (True \<and> length (intervals (type ?c)) < length (getExtendedIntervals (intervals (type ?c)) True))"
    using rule m by blast
  then have "length [0, 3, 6, 9 :: nat] < length (getExtendedIntervals [0, 3, 6, 9] True)"
    by simp
  moreover have "\<not> distinct (getExtendedIntervals [0, 3, 6, 9] True)"
    using rule by simp
  ultimately show ?thesis using m by blast
qed

section \<open>Repeated notes\<close>

text \<open>
  The major sixth chord on the tonic of the pentatonic pattern 0, 2, 4, 7, 9, extended:
  the appended offset (9 + 3) mod 12 is 0, and the tonic stands twice among the notes.
\<close>

theorem noteSet_distinct_counterexample:
  "\<lparr>root = 0, rootName = ''Sa'', notes_c = [0, 4, 7, 9, 0],
      type = \<lparr>id_ct = ''maj6'', name = ''Major 6'', intervals = [0, 4, 7, 9], color = ''#a3e635''\<rparr>,
      isExtended = True, westernName = None\<rparr>
     \<in> set (availableChordsForPattern [1, 0, 1, 0, 1, 0, 0, 1, 0, 1, 0, 0] (Some ''maj6'') True)
   \<and> \<not> distinct [0, 4, 7, 9, 0 :: nat]"
proof -
  have "\<lparr>root = 0, rootName = ''Sa'', notes_c = [0, 4, 7, 9, 0],
      type = \<lparr>id_ct = ''maj6'', name = ''Major 6'', intervals = [0, 4, 7, 9], color = ''#a3e635''\<rparr>,
      isExtended = True, westernName = None\<rparr>
     \<in> set (availableChordsForPattern [1, 0, 1, 0, 1, 0, 0, 1, 0, 1, 0, 0] (Some ''maj6'') True)"
    by code_simp
  then show ?thesis by simp
qed

text \<open>
  C7, as the code has it. The notes of a returned chord are pairwise distinct except
  when extension is asked and the template's highest offset is 9, which is so for the
  templates dim7, maj6 and min6: there the appended offset wraps to 0 and the root is
  listed twice.
\<close>

theorem noteSet_distinct_unless_wrapped:
  "\<forall>c \<in> set (availableChordsForPattern P f e).
     distinct (notes_c c) = (\<not> (e \<and> id_ct (type c) \<in> {''dim7'', ''maj6'', ''min6''}))"
proof (rule ballI)
  fix c assume "c \<in> set (availableChordsForPattern P f e)"
  then obtain ct r where ct: "ct \<in> set chordTypes" and c: "chordAt P ct e r = Some c"
    using selectTypes_subset by (auto simp: in_availableChords)
  let ?ivs = "getExtendedIntervals (intervals ct) e"
  have ty: "type c = ct" and ns: "notes_c c = map (\<lambda>x. (r + x) mod 12) ?ivs"
    using chordAt_Some(2,4) [OF c] by simp_all
  have bound: "set ?ivs \<subseteq> {..<12}"
  proof (cases e)
    case True
    then show ?thesis using catalog_extended [OF ct] by auto
  next
    case False
    then show ?thesis using catalog_intervals [OF ct] by (auto simp: getExtendedIntervals_def)
  qed
  have "inj_on (\<lambda>x. (r + x) mod 12) (set ?ivs)"
    by (rule inj_on_subset [OF transpose_inj bound])
  then have "distinct (notes_c c) = distinct ?ivs"
    by (simp add: ns distinct_map)
  also have "\<dots> = (\<not> (e \<and> id_ct ct \<in> {''dim7'', ''maj6'', ''min6''}))"
  proof (cases e)
    case True
    then show ?thesis using catalog_extended [OF ct] by simp
  next
    case False
    then show ?thesis using catalog_intervals [OF ct] by (simp add: getExtendedIntervals_def)
  qed
  finally show "distinct (notes_c c) = (\<not> (e \<and> id_ct (type c) \<in> {''dim7'', ''maj6'', ''min6''}))"
    by (simp add: ty)
qed

theorem noteSet_distinct_unless_wrapped_witness:
  "\<lparr>root = 0, rootName = ''Sa'', notes_c = [0, 4, 7],
      type = \<lparr>id_ct = ''major'', name = ''Major'', intervals = [0, 4, 7], color = ''#3b82f6''\<rparr>,
      isExtended = False, westernName = None\<rparr>
     \<in> set (availableChordsForPattern [1, 0, 1, 0, 1, 0, 0, 1, 0, 1, 0, 0] (Some ''major'') False)
   \<and> distinct [0, 4, 7 :: nat]"
proof -
  let ?P = "[1, 0, 1, 0, 1, 0, 0, 1, 0, 1, 0, 0] :: pattern"
  let ?c = "\<lparr>root = 0, rootName = ''Sa'', notes_c = [0, 4, 7],
      type = \<lparr>id_ct = ''major'', name = ''Major'', intervals = [0, 4, 7], color = ''#3b82f6''\<rparr>,
      isExtended = False, westernName = None\<rparr>"
  have m: "?c \<in> set (availableChordsForPattern ?P (Some ''major'') False)"
    by code_simp
  have "distinct (notes_c ?c) = (\<not> (False \<and> id_ct (type ?c) \<in> {''dim7'', ''maj6'', ''min6''}))"
    using noteSet_distinct_unless_wrapped [of ?P "Some ''major''" False] m by blast
  then show ?thesis using m by simp
qed

section \<open>The pentatonic scenario\<close>

text \<open>
  On the pattern 0, 2, 4, 7, 9 the roots of the major triads found are not 0, 4 and 7:
  the triad on 4 needs 8 and 11, the triad on 7 needs 11.
\<close>

theorem pentatonic_major_counterexample:
  "set (map root (availableChordsForPattern [1, 0, 1, 0, 1, 0, 0, 1, 0, 1, 0, 0] (Some ''major'') False))
     \<noteq> {0, 4, 7}"
proof -
  have "map root (availableChordsForPattern [1, 0, 1, 0, 1, 0, 0, 1, 0, 1, 0, 0] (Some ''major'') False) = [0]"
    by code_simp
  then show ?thesis by simp
qed

text \<open>
  C8, as the code has it. For the pattern with exactly the pitch classes 0, 2, 4, 7, 9,
  the template filter \<^verbatim>\<open>major\<close> and no extension, the matcher returns one chord: the
  major triad 0, 4, 7 on root 0.
\<close>

theorem pentatonic_major_only_root_0:
  "availableChordsForPattern [1, 0, 1, 0, 1, 0, 0, 1, 0, 1, 0, 0] (Some ''major'') False =
     [\<lparr>root = 0, rootName = ''Sa'', notes_c = [0, 4, 7],
       type = \<lparr>id_ct = ''major'', name = ''Major'', intervals = [0, 4, 7], color = ''#3b82f6''\<rparr>,
       isExtended = False, westernName = None\<rparr>]"
  by code_simp

theorem pentatonic_major_only_root_0_witness:
  "map root (availableChordsForPattern [1, 0, 1, 0, 1, 0, 0, 1, 0, 1, 0, 0] (Some ''major'') False) = [0]
   \<and> \<not> truthyAt [1, 0, 1, 0, 1, 0, 0, 1, 0, 1, 0, 0] ((4 + 4) mod 12)
   \<and> \<not> truthyAt [1, 0, 1, 0, 1, 0, 0, 1, 0, 1, 0, 0] ((7 + 4) mod 12)"
  using pentatonic_major_only_root_0 by (simp add: truthyAt_def)

section \<open>Exact-set search\<close>









section \<open>CustomMatcher: normalisation and matching\<close>

lemma jsRem_nonneg: "0 \<le> a \<Longrightarrow> jsRem a 12 = a mod 12"
  by (simp add: jsRem_def sgn_if)

lemma jsRem_neg: "a < 0 \<Longrightarrow> jsRem a 12 = - ((- a) mod 12)"
  by (simp add: jsRem_def sgn_if)

lemma jsRem_normalize: "jsRem (jsRem v 12 + 12) 12 = v mod 12"
proof (cases "0 \<le> v")
  case True
  have "0 \<le> v mod 12 + 12" by simp
  then have "jsRem (v mod 12 + 12) 12 = (v mod 12 + 12) mod 12"
    by (rule jsRem_nonneg)
  then show ?thesis using True by (simp add: jsRem_nonneg)
next
  case False
  then have a: "jsRem v 12 = - ((- v) mod 12)" by (simp add: jsRem_neg)
  have "(- v) mod 12 < 12" by simp
  then have "0 \<le> - ((- v) mod 12) + 12" by linarith
  then have "jsRem (- ((- v) mod 12) + 12) 12 = (- ((- v) mod 12) + 12) mod 12"
    by (rule jsRem_nonneg)
  also have "\<dots> = (- ((- v) mod 12)) mod 12" by simp
  also have "\<dots> = v mod 12" by (simp add: mod_minus_eq)
  finally show ?thesis by (simp add: a)
qed

lemma normalizeInterval_JNum: "normalizeInterval (JNum v) = Num (v mod 12)"
  by (simp add: normalizeInterval_def jsRem_normalize)

lemma transposed_note:
  "jsRem (int r + v mod 12) 12 = int ((r + nat (v mod 12)) mod 12)"
proof -
  have "0 \<le> int r + v mod 12" by simp
  then have "jsRem (int r + v mod 12) 12 = (int r + v mod 12) mod 12"
    by (simp add: jsRem_def sgn_if)
  also have "\<dots> = int ((r + nat (v mod 12)) mod 12)"
    by (simp add: zmod_int)
  finally show ?thesis .
qed

lemma matchAt_integers:
  "matchAt (map (normalizeInterval \<circ> JNum) ivs) p r =
     (if list_all (\<lambda>v. truthyAt p ((r + nat (v mod 12)) mod 12)) ivs
      then Some \<lparr>root_m = r, rootName_m = swarNames ! r,
                 notes_m = map (\<lambda>v. Num (int ((r + nat (v mod 12)) mod 12))) ivs\<rparr>
      else None)"
  by (simp add: matchAt_def normalizeInterval_JNum transposed_note truthyAtNum_def list_all_iff comp_def)

lemma map_key_map_filter:
  assumes "\<And>x y. g x = Some y \<Longrightarrow> key y = x"
  shows "map key (List.map_filter g xs) = filter (\<lambda>x. g x \<noteq> None) xs"
  by (induction xs) (auto simp: assms split: option.splits)

text \<open>
  C4. Each integer interval v is normalised to ((v mod 12) + 12) mod 12, which the
  source computes with the remainder of JavaScript. All twelve roots are tried, whether
  or not the root is in the pattern: the roots of the matches are the roots from 0 to
  11, ascending, for which every normalised interval transposed by the root is present
  in the pattern, and the notes of a match are those transposed intervals. For the
  pattern 0, 4, 7 and the intervals 0, 4, 7, 12 only root 0 matches; for the single
  interval 4 the roots 0, 3 and 8 match, of which 3 and 8 are not in the pattern.
\<close>

theorem findMatches_custom_rule:
  "map normalizeInterval (map JNum ivs) = map (\<lambda>v. Num (((v mod 12) + 12) mod 12)) ivs
   \<and> map root_m (findMatches (map normalizeInterval (map JNum ivs)) p) =
       filter (\<lambda>r. list_all (\<lambda>v. truthyAt p ((r + nat (v mod 12)) mod 12)) ivs) [0..<12]
   \<and> (\<forall>m \<in> set (findMatches (map normalizeInterval (map JNum ivs)) p).
         notes_m m = map (\<lambda>v. Num (int ((root_m m + nat (v mod 12)) mod 12))) ivs)
   \<and> map root_m (findMatches (map normalizeInterval (map JNum [0, 4, 7, 12]))
         [1, 0, 0, 0, 1, 0, 0, 1, 0, 0, 0, 0]) = [0]
   \<and> map root_m (findMatches (map normalizeInterval (map JNum [4]))
         [1, 0, 0, 0, 1, 0, 0, 1, 0, 0, 0, 0]) = [0, 3, 8]"
proof (intro conjI)
  show "map normalizeInterval (map JNum ivs) = map (\<lambda>v. Num (((v mod 12) + 12) mod 12)) ivs"
    by (simp add: normalizeInterval_JNum)
  have key: "root_m y = x" if "matchAt (map normalizeInterval (map JNum ivs)) p x = Some y" for x y
    using that by (auto simp: matchAt_integers split: if_splits)
  have "map root_m (findMatches (map normalizeInterval (map JNum ivs)) p) =
        filter (\<lambda>r. matchAt (map normalizeInterval (map JNum ivs)) p r \<noteq> None) [0..<12]"
    unfolding findMatches_def by (rule map_key_map_filter) (simp add: key)
  then show "map root_m (findMatches (map normalizeInterval (map JNum ivs)) p) =
       filter (\<lambda>r. list_all (\<lambda>v. truthyAt p ((r + nat (v mod 12)) mod 12)) ivs) [0..<12]"
    by (simp add: matchAt_integers)
  show "\<forall>m \<in> set (findMatches (map normalizeInterval (map JNum ivs)) p).
         notes_m m = map (\<lambda>v. Num (int ((root_m m + nat (v mod 12)) mod 12))) ivs"
    by (auto simp: findMatches_def set_map_filter_iff matchAt_integers split: if_splits)
  show "map root_m (findMatches (map normalizeInterval (map JNum [0, 4, 7, 12]))
         [1, 0, 0, 0, 1, 0, 0, 1, 0, 0, 0, 0]) = [0]"
    by code_simp
  show "map root_m (findMatches (map normalizeInterval (map JNum [4]))
         [1, 0, 0, 0, 1, 0, 0, 1, 0, 0, 0, 0]) = [0, 3, 8]"
    by code_simp
qed

theorem findMatches_custom_rule_witness:
  "\<lparr>root_m = 8, rootName_m = ''Dha'' @ flatSign, notes_m = [Num 0, Num 0]\<rparr>
     \<in> set (findMatches (map normalizeInterval (map JNum [- 8, 16])) [1, 0, 0, 0, 1, 0, 0, 1, 0, 0, 0, 0])
   \<and> \<not> truthyAt [1, 0, 0, 0, 1, 0, 0, 1, 0, 0, 0, 0] 8
   \<and> map (\<lambda>v. Num (int ((8 + nat (v mod 12)) mod 12))) [- 8, 16] = [Num 0, Num 0]"
proof -
  let ?p = "[1, 0, 0, 0, 1, 0, 0, 1, 0, 0, 0, 0] :: pattern"
  let ?m = "\<lparr>root_m = 8, rootName_m = ''Dha'' @ flatSign, notes_m = [Num 0, Num 0]\<rparr>"
  have m: "?m \<in> set (findMatches (map normalizeInterval (map JNum [- 8, 16])) ?p)"
    by code_simp
  have "notes_m ?m = map (\<lambda>v. Num (int ((root_m ?m + nat (v mod 12)) mod 12))) [- 8, 16]"
    using findMatches_custom_rule [of "[- 8, 16]" ?p] m by blast
  then have "map (\<lambda>v. Num (int ((8 + nat (v mod 12)) mod 12))) [- 8, 16] = [Num 0, Num 0]"
    by simp
  moreover have "\<not> truthyAt ?p 8" by (simp add: truthyAt_def)
  ultimately show ?thesis using m by blast
qed

section \<open>CustomMatcher: validation\<close>




section \<open>AggregateCounter: decomposition\<close>

lemma id_ct_inj: "a \<in> set chordTypes \<Longrightarrow> b \<in> set chordTypes \<Longrightarrow> id_ct a = id_ct b \<Longrightarrow> a = b"
  using distinct_chordTypes by (simp add: distinct_map inj_on_def)

lemma filter_eq_singleton:
  "distinct xs \<Longrightarrow> x \<in> set xs \<Longrightarrow> (\<And>y. y \<in> set xs \<Longrightarrow> P y = (y = x)) \<Longrightarrow> filter P xs = [x]"
proof (induction xs)
  case Nil
  then show ?case by simp
next
  case (Cons a xs)
  show ?case
  proof (cases "a = x")
    case True
    then have "\<forall>y \<in> set xs. \<not> P y" using Cons.prems by auto
    then have "filter P xs = []" by (simp add: filter_empty_conv)
    moreover have "P a" using True Cons.prems(3) by simp
    ultimately show ?thesis using True by simp
  next
    case False
    then have "\<not> P a" using Cons.prems(3) by simp
    moreover have "filter P xs = [x]" using Cons False by auto
    ultimately show ?thesis by simp
  qed
qed

lemma catalog_ids: "ct \<in> set chordTypes \<Longrightarrow> id_ct ct \<noteq> ''all'' \<and> id_ct ct \<noteq> []"
  by (auto simp: chordTypes_def)

lemma selectTypes_own_id: "ct \<in> set chordTypes \<Longrightarrow> selectTypes (Some (id_ct ct)) = [ct]"
proof -
  assume ct: "ct \<in> set chordTypes"
  have d: "distinct chordTypes" using distinct_chordTypes by (simp add: distinct_map)
  have "filter (\<lambda>c. id_ct c = id_ct ct) chordTypes = [ct]"
    using d ct by (rule filter_eq_singleton) (use ct id_ct_inj in blast)
  then show ?thesis using catalog_ids [OF ct] by (simp add: selectTypes_def)
qed

lemma available_own_id:
  "ct \<in> set chordTypes \<Longrightarrow> availableChordsForPattern p (Some (id_ct ct)) e = chordsOfType p e ct"
  by (simp add: availableChordsForPattern_def selectTypes_own_id)

lemma fold_countInto:
  "set ts \<subseteq> set chordTypes \<Longrightarrow>
     fold (countInto p e) ts acc =
       \<lparr>basic = basic acc + length (filter (\<lambda>c. \<not> isExtended c) (concat (map (chordsOfType p e) ts))),
        extended = extended acc + length (filter (\<lambda>c. isExtended c) (concat (map (chordsOfType p e) ts)))\<rparr>"
proof (induction ts arbitrary: acc)
  case Nil
  show ?case by simp
next
  case (Cons t ts)
  then have t: "t \<in> set chordTypes" and ts: "set ts \<subseteq> set chordTypes" by simp_all
  have "fold (countInto p e) (t # ts) acc = fold (countInto p e) ts (countInto p e t acc)"
    by simp
  also have "\<dots> =
       \<lparr>basic = basic (countInto p e t acc) +
          length (filter (\<lambda>c. \<not> isExtended c) (concat (map (chordsOfType p e) ts))),
        extended = extended (countInto p e t acc) +
          length (filter (\<lambda>c. isExtended c) (concat (map (chordsOfType p e) ts)))\<rparr>"
    by (rule Cons.IH [OF ts])
  also have "\<dots> =
       \<lparr>basic = basic acc +
          length (filter (\<lambda>c. \<not> isExtended c) (concat (map (chordsOfType p e) (t # ts)))),
        extended = extended acc +
          length (filter (\<lambda>c. isExtended c) (concat (map (chordsOfType p e) (t # ts))))\<rparr>"
    by (simp add: countInto_def available_own_id [OF t] Let_def)
  finally show ?case .
qed

lemma sum_list_length_concat: "sum_list (map (\<lambda>x. length (g x)) xs) = length (concat (map g xs))"
  by (induction xs) simp_all

text \<open>
  C6. In combined direction mode the aggregates of a raga are the number of chords of
  the all-templates enumeration over its combined pattern that are not extended, and the
  number of those that are; the two add up to the length of that enumeration, and so
  does the sum over the catalog of the per-template match counts.
\<close>

theorem aggregates_combined_decomposition:
  "aggregates (Some r) False e =
     Inr \<lparr>basic = length (filter (\<lambda>c. \<not> isExtended c)
                     (availableChordsForPattern (notePattern r) (Some ''all'') e)),
          extended = length (filter (\<lambda>c. isExtended c)
                     (availableChordsForPattern (notePattern r) (Some ''all'') e))\<rparr>
   \<and> length (filter (\<lambda>c. \<not> isExtended c) (availableChordsForPattern (notePattern r) (Some ''all'') e)) +
     length (filter (\<lambda>c. isExtended c) (availableChordsForPattern (notePattern r) (Some ''all'') e)) =
       length (availableChordsForPattern (notePattern r) (Some ''all'') e)
   \<and> sum_list (map (\<lambda>ct. length (availableChordsForPattern (notePattern r) (Some (id_ct ct)) e)) chordTypes) =
       length (availableChordsForPattern (notePattern r) (Some ''all'') e)"
proof (intro conjI)
  have all: "availableChordsForPattern p (Some ''all'') e = concat (map (chordsOfType p e) chordTypes)" for p
    by (simp add: availableChordsForPattern_def selectTypes_def)
  show "aggregates (Some r) False e =
     Inr \<lparr>basic = length (filter (\<lambda>c. \<not> isExtended c)
                     (availableChordsForPattern (notePattern r) (Some ''all'') e)),
          extended = length (filter (\<lambda>c. isExtended c)
                     (availableChordsForPattern (notePattern r) (Some ''all'') e))\<rparr>"
    by (simp add: aggregates_def fold_countInto all)
  show "length (filter (\<lambda>c. \<not> isExtended c) (availableChordsForPattern (notePattern r) (Some ''all'') e)) +
     length (filter (\<lambda>c. isExtended c) (availableChordsForPattern (notePattern r) (Some ''all'') e)) =
       length (availableChordsForPattern (notePattern r) (Some ''all'') e)"
    using sum_length_filter_compl [of "\<lambda>c. isExtended c"] by (simp add: add.commute)
  have "map (\<lambda>ct. length (availableChordsForPattern (notePattern r) (Some (id_ct ct)) e)) chordTypes =
        map (\<lambda>ct. length (chordsOfType (notePattern r) e ct)) chordTypes"
    by (rule map_cong) (simp_all add: available_own_id)
  then have "sum_list (map (\<lambda>ct. length (availableChordsForPattern (notePattern r) (Some (id_ct ct)) e)) chordTypes) =
        sum_list (map (\<lambda>ct. length (chordsOfType (notePattern r) e ct)) chordTypes)"
    by (rule arg_cong)
  then show "sum_list (map (\<lambda>ct. length (availableChordsForPattern (notePattern r) (Some (id_ct ct)) e)) chordTypes) =
       length (availableChordsForPattern (notePattern r) (Some ''all'') e)"
    by (simp add: all sum_list_length_concat)
qed

theorem aggregates_combined_decomposition_witness:
  "aggregates (Some \<lparr>raga_name = ''Bhoopali'', notePattern = [1, 0, 1, 0, 1, 0, 0, 1, 0, 1, 0, 0],
        aarohPattern = [1, 0, 1, 0, 1, 0, 0, 1, 0, 1, 0, 0],
        avrohPattern = [1, 0, 1, 0, 1, 0, 0, 1, 0, 1, 0, 0]\<rparr>) False True =
     Inr \<lparr>basic = 0, extended = 5\<rparr>
   \<and> length (availableChordsForPattern [1, 0, 1, 0, 1, 0, 0, 1, 0, 1, 0, 0] (Some ''all'') True) = 0 + 5"
proof -
  let ?r = "\<lparr>raga_name = ''Bhoopali'', notePattern = [1, 0, 1, 0, 1, 0, 0, 1, 0, 1, 0, 0],
        aarohPattern = [1, 0, 1, 0, 1, 0, 0, 1, 0, 1, 0, 0],
        avrohPattern = [1, 0, 1, 0, 1, 0, 0, 1, 0, 1, 0, 0]\<rparr>"
  have n: "length (availableChordsForPattern [1, 0, 1, 0, 1, 0, 0, 1, 0, 1, 0, 0] (Some ''all'') True) = 5"
    by code_simp
  have b: "length (filter (\<lambda>c. \<not> isExtended c)
             (availableChordsForPattern [1, 0, 1, 0, 1, 0, 0, 1, 0, 1, 0, 0] (Some ''all'') True)) = 0"
    by code_simp
  show ?thesis
    using aggregates_combined_decomposition [of ?r True] n b by simp
qed

section \<open>WesternNameAnnotator\<close>










text \<open>
  From 2^53 on the sum of a pitch and the tonic is rounded: under the tonic 2^53 the
  note 7 is named at (2^53 + 8) mod 12, not at (2^53 + 7) mod 12.
\<close>

lemma bitLength_2_53: "bitLength (9007199254740992 + k) = 54" if "k < 9007199254740992"
proof -
  have lo: "2 ^ 53 \<le> 9007199254740992 + k" by simp
  have hi: "9007199254740992 + k < 2 ^ Suc 53" using that by simp
  have "bitLength m = Suc j" if "2 ^ j \<le> m" "m < 2 ^ Suc j" for m j
    using that
  proof (induction j arbitrary: m)
    case 0
    then have "m = 1" by simp
    then show ?case by (simp add: bitLength.simps)
  next
    case (Suc j)
    have "2 ^ j \<le> m div 2" using Suc.prems(1) by auto
    moreover have "m div 2 < 2 ^ Suc j" using Suc.prems(2) by auto
    ultimately have "bitLength (m div 2) = Suc j" by (rule Suc.IH)
    moreover have "(0::nat) < 2 ^ Suc j" by simp
    then have "m \<noteq> 0" using Suc.prems(1) by linarith
    ultimately show ?case by (subst bitLength.simps) simp
  qed
  from this [OF lo hi] show ?thesis by simp
qed

lemma dblRound_examples:
  "dblRound 9007199254740992 = 9007199254740992"
  "dblRound 9007199254740996 = 9007199254740996"
  "dblRound 9007199254740999 = 9007199254741000"
  using bitLength_2_53 [of 0] bitLength_2_53 [of 4] bitLength_2_53 [of 7]
  by (simp_all add: dblRound_def Let_def)

lemma attachWesternNames_rounded_tonic:
  "map westernName (attachWesternNames
        [\<lparr>root = 0, rootName = ''Sa'', notes_c = [0, 4, 7],
          type = \<lparr>id_ct = ''major'', name = ''Major'', intervals = [0, 4, 7], color = ''#3b82f6''\<rparr>,
          isExtended = False, westernName = None\<rparr>] (Some 9007199254740992)) =
     [Some (''A'' @ flatSign @ '': A'' @ flatSign @ '' - C - E'')]"
  by (simp add: attachWesternNames_def dblAdd_def dblRound_examples jsRem_def elementAt_def
      westernNotesFlat_def inTemplate_def inJoin_def qualityOf_def Let_def)

section \<open>Filtering by note\<close>

text \<open>
  C10. With no selected note \<^verbatim>\<open>filterChordsByNote\<close> returns the chords unchanged. With
  a selected note, mode \<^verbatim>\<open>any\<close> keeps the chords whose notes include it, and every other
  mode, a missing one included, keeps the chords whose root equals it.
\<close>

theorem filterChordsByNote_modes:
  "filterChordsByNote chords None mode = chords
   \<and> filterChordsByNote chords (Some n) (Some ''any'') =
       filter (\<lambda>c. n \<in> set (map int (notes_c c))) chords
   \<and> (mode \<noteq> Some ''any'' \<longrightarrow>
       filterChordsByNote chords (Some n) mode = filter (\<lambda>c. int (root c) = n) chords)"
  by (simp add: filterChordsByNote_def)

theorem filterChordsByNote_modes_witness:
  "Some ''bogus'' \<noteq> Some ''any''
   \<and> map root (filterChordsByNote (availableChordsForPattern [1, 0, 1, 0, 1, 0, 0, 1, 0, 1, 0, 0] None False)
        (Some 9) (Some ''bogus'')) = [9, 9, 9]
   \<and> map root (filterChordsByNote (availableChordsForPattern [1, 0, 1, 0, 1, 0, 0, 1, 0, 1, 0, 0] None False)
        (Some 9) None) = [9, 9, 9]"
proof -
  let ?cs = "availableChordsForPattern [1, 0, 1, 0, 1, 0, 0, 1, 0, 1, 0, 0] None False"
  have r: "map root (filter (\<lambda>c. int (root c) = 9) ?cs) = [9, 9, 9]"
    by code_simp
  have a: "Some ''bogus'' \<noteq> Some ''any''" by simp
  have b: "(None :: string option) \<noteq> Some ''any''" by simp
  show ?thesis
    using filterChordsByNote_modes [of ?cs "Some ''bogus''" 9] filterChordsByNote_modes [of ?cs None 9] r a b
    by simp
qed

end
